theory Spec2Isabelle
  imports Main "HOL-Library.Multiset"
begin

section \<open>Trip Logbook: the IndexedDB database handler\<close>

text \<open>
  The development embeds the class \<open>TripDatabase\<close> (the persistence module of the Trip
  Logbook application) and settles the properties stated about it.

  Conventions of the embedding.
  \<^item> Every method of the class is \<open>async\<close> and the application awaits each call before the
    next one; the model is sequential, with the database passed in and returned.
  \<^item> A rejected promise is a value \<open>Inl e\<close>; the state returned next to it is the state
    the database is left in.
  \<^item> Identifiers are integral JavaScript numbers: \<open>int\<close>.  The ceiling \<open>2 ^ 53\<close> of a
    key generator, up to which every integer is an exact Number, is part of the model.
  \<^item> An absent property of an object (\<open>undefined\<close>) is \<open>None\<close>.
  \<^item> A time stamp \<open>new Date().toISOString()\<close> is held as the number of milliseconds it
    denotes; the ISO rendering has a fixed width, so the order of the strings is the
    order of these numbers.
\<close>

type_synonym timestamp = int

datatype error = ConstraintError | DataError | InvalidDataFormat

subsection \<open>Records of the two object stores\<close>

text \<open>
  Both stores are created with \<open>keyPath: 'id'\<close>: the key of a record is the \<open>id\<close> property
  of the stored object.  The field is called \<open>id'\<close> here, \<open>id\<close> being the identity
  function of HOL.
\<close>

record stored =
  id' :: "int option"

text \<open>
  A trip, and also the \<open>tripData\<close> object handed to \<open>addTrip\<close> and \<open>updateTrip\<close>.
  \<open>startDate\<close> is held by the time value \<open>new Date(startDate)\<close> has: \<open>None\<close> when the
  property is absent or is not a date (\<open>NaN\<close>).  The coordinates \<open>lat\<close> and \<open>lng\<close> are
  opaque floating point values that no method of the class reads; they are left out.
  The property \<open>notes\<close> is the field \<open>notes'\<close>.
\<close>

record trip = stored +
  title :: "string option"
  country :: "string option"
  city :: "string option"
  place :: "string option"
  startDate :: "int option"
  endDate :: "int option"
  notes' :: "string option"
  tags :: "string list option"
  favorite :: "bool option"
  coverPhoto :: "string option"
  createdAt :: "timestamp option"
  updatedAt :: "timestamp option"

record photo = stored +
  tripId :: "int option"
  data :: "string option"
  name :: "string option"
  type :: "string option"

subsection \<open>An object store with in-line keys and a key generator\<close>

text \<open>
  The platform's object store, as the Indexed Database API defines it: a list of records
  (key, value) in ascending key order, and the current number of the key generator
  (\<open>autoIncrement: true\<close>).  The generator starts at 1, \<open>clear\<close> does not reset it, and
  it issues no key beyond \<open>keyCeiling\<close>, which is \<open>2 ^ 53\<close>.
\<close>

definition keyCeiling :: int where
  "keyCeiling = 9007199254740992"

record 'v objectStore =
  records :: "(int \<times> 'v) list"
  currentNumber :: int

fun insertRecord :: "int \<Rightarrow> 'v \<Rightarrow> (int \<times> 'v) list \<Rightarrow> (int \<times> 'v) list" where
  "insertRecord k v [] = [(k, v)]"
| "insertRecord k v (r # rs) =
     (if fst r < k then r # insertRecord k v rs
      else if fst r = k then (k, v) # rs
      else (k, v) # r # rs)"

text \<open>
  Storing a record (the steps shared by \<open>add\<close> and \<open>put\<close>).
  \<^item> Without an \<open>id\<close> in the value a key is generated: a generator whose current number
    is beyond the ceiling fails with a \<open>ConstraintError\<close>; otherwise the key is the
    current number, it is written into the value, and the current number grows by one.
  \<^item> With an \<open>id\<close> that is the key, and the generator is possibly updated: the key is
    cut down to the ceiling, and when the result is not below the current number the
    current number becomes the result plus one.
  \<^item> \<open>add\<close> sets the no-overwrite flag: an existing key is a \<open>ConstraintError\<close>.
  A failed request aborts its transaction: the store, its generator included, stays as
  it was.
\<close>

definition storeRecord ::
  "bool \<Rightarrow> 'a stored_scheme \<Rightarrow> 'a stored_scheme objectStore
     \<Rightarrow> error + int \<times> 'a stored_scheme objectStore" where
  "storeRecord noOverwrite v st =
     (case id' v of
        None \<Rightarrow>
          if keyCeiling < currentNumber st then Inl ConstraintError
          else if noOverwrite \<and> currentNumber st \<in> fst ` set (records st)
          then Inl ConstraintError
          else Inr (currentNumber st,
                    \<lparr>records = insertRecord (currentNumber st)
                                 (v\<lparr>id' := Some (currentNumber st)\<rparr>) (records st),
                     currentNumber = currentNumber st + 1\<rparr>)
      | Some j \<Rightarrow>
          if noOverwrite \<and> j \<in> fst ` set (records st) then Inl ConstraintError
          else Inr (j,
                    \<lparr>records = insertRecord j v (records st),
                     currentNumber =
                       (if currentNumber st \<le> min j keyCeiling then min j keyCeiling + 1
                        else currentNumber st)\<rparr>))"

text \<open>
  The generator of a store can still issue \<open>n\<close> keys: the last of them is at most the
  ceiling.
\<close>

definition hasRoom :: "'v objectStore \<Rightarrow> nat \<Rightarrow> bool" where
  "hasRoom st n \<longleftrightarrow> n = 0 \<or> currentNumber st + int n \<le> keyCeiling + 1"

definition store_add ::
  "'a stored_scheme \<Rightarrow> 'a stored_scheme objectStore
     \<Rightarrow> error + int \<times> 'a stored_scheme objectStore" where
  "store_add = storeRecord True"

definition store_put ::
  "'a stored_scheme \<Rightarrow> 'a stored_scheme objectStore
     \<Rightarrow> error + int \<times> 'a stored_scheme objectStore" where
  "store_put = storeRecord False"

definition store_delete :: "int \<Rightarrow> 'v objectStore \<Rightarrow> 'v objectStore" where
  "store_delete k st = st\<lparr>records := filter (\<lambda>r. fst r \<noteq> k) (records st)\<rparr>"

definition store_get :: "int \<Rightarrow> 'v objectStore \<Rightarrow> 'v option" where
  "store_get k st = map_of (records st) k"

definition store_getAll :: "'v objectStore \<Rightarrow> 'v list" where
  "store_getAll st = map snd (records st)"

definition store_clear :: "'v objectStore \<Rightarrow> 'v objectStore" where
  "store_clear st = st\<lparr>records := []\<rparr>"

subsection \<open>The database and the clock\<close>

text \<open>
  \<open>tripStore\<close> and \<open>photoStore\<close> are the object stores \<open>'trips'\<close> and \<open>'photos'\<close>.
  \<open>clock\<close> holds the readings the calls of \<open>new Date()\<close> still to come will return:
  \<open>clock s 0\<close> is the next one.
\<close>

record world =
  tripStore :: "trip objectStore"
  photoStore :: "photo objectStore"
  clock :: "nat \<Rightarrow> timestamp"

definition newDate :: "world \<Rightarrow> timestamp \<times> world" where
  "newDate s = (clock s 0, s\<lparr>clock := \<lambda>n. clock s (Suc n)\<rparr>)"

text \<open>The database after \<open>onupgradeneeded\<close> has created the two stores.\<close>

definition initDB :: "(nat \<Rightarrow> timestamp) \<Rightarrow> world" where
  "initDB clk =
     \<lparr>tripStore = \<lparr>records = [], currentNumber = 1\<rparr>,
      photoStore = \<lparr>records = [], currentNumber = 1\<rparr>,
      clock = clk\<rparr>"

text \<open>
  \<open>parseInt\<close> applied to an integral Number returns it (the argument is rendered in
  decimal and read back).
\<close>

definition parseInt :: "int \<Rightarrow> int" where
  "parseInt n = n"

subsection \<open>Trip operations\<close>

definition addTrip :: "trip \<Rightarrow> world \<Rightarrow> (error + int) \<times> world" where
  "addTrip tripData s =
     (let (c, s1) = newDate s;
          (u, s2) = newDate s1;
          trip = tripData\<lparr>createdAt := Some c, updatedAt := Some u\<rparr>
      in case store_add trip (tripStore s2) of
           Inl e \<Rightarrow> (Inl e, s2)
         | Inr (k, st) \<Rightarrow> (Inr k, s2\<lparr>tripStore := st\<rparr>))"

definition updateTrip :: "int \<Rightarrow> trip \<Rightarrow> world \<Rightarrow> (error + int) \<times> world" where
  "updateTrip i tripData s =
     (let (u, s1) = newDate s;
          trip = tripData\<lparr>id' := Some (parseInt i), updatedAt := Some u\<rparr>
      in case store_put trip (tripStore s1) of
           Inl e \<Rightarrow> (Inl e, s1)
         | Inr (k, st) \<Rightarrow> (Inr k, s1\<lparr>tripStore := st\<rparr>))"

definition getTrip :: "int \<Rightarrow> world \<Rightarrow> trip option" where
  "getTrip i s = store_get (parseInt i) (tripStore s)"

text \<open>
  \<open>Array.prototype.sort\<close> with a comparison function.  The comparator of \<open>getAllTrips\<close>
  subtracts two dates; the difference is \<open>NaN\<close> (\<open>None\<close>) when one of them is invalid, and
  the sort reads \<open>NaN\<close> as 0.  The sort is stable; it is modelled by the stable insertion
  sort, which is the result of every conforming implementation when the comparator is
  consistent, that is, when every trip compared has a valid \<open>startDate\<close>.  With an
  invalid date among them the order an engine returns is implementation-defined and the
  model's order is only one of the possible ones: nothing is stated about the order of
  \<open>getAllTrips\<close> then, only that it is a rearrangement of the stored trips.
\<close>

definition compareTrips :: "trip \<Rightarrow> trip \<Rightarrow> int option" where
  "compareTrips a b =
     (case (startDate b, startDate a) of
        (Some y, Some x) \<Rightarrow> Some (y - x)
      | _ \<Rightarrow> None)"

definition sortCompare :: "('a \<Rightarrow> 'a \<Rightarrow> int option) \<Rightarrow> 'a \<Rightarrow> 'a \<Rightarrow> int" where
  "sortCompare comparefn x y = (case comparefn x y of None \<Rightarrow> 0 | Some v \<Rightarrow> v)"

fun insertSorted :: "('a \<Rightarrow> 'a \<Rightarrow> int option) \<Rightarrow> 'a \<Rightarrow> 'a list \<Rightarrow> 'a list" where
  "insertSorted comparefn x [] = [x]"
| "insertSorted comparefn x (y # ys) =
     (if sortCompare comparefn x y \<le> 0 then x # y # ys
      else y # insertSorted comparefn x ys)"

definition sortArray :: "('a \<Rightarrow> 'a \<Rightarrow> int option) \<Rightarrow> 'a list \<Rightarrow> 'a list" where
  "sortArray comparefn xs = foldr (insertSorted comparefn) xs []"

definition getAllTrips :: "world \<Rightarrow> trip list" where
  "getAllTrips s = sortArray compareTrips (store_getAll (tripStore s))"


subsection \<open>Photo operations\<close>

definition addPhoto :: "photo \<Rightarrow> world \<Rightarrow> (error + int) \<times> world" where
  "addPhoto photoData s =
     (case store_add photoData (photoStore s) of
        Inl e \<Rightarrow> (Inl e, s)
      | Inr (k, st) \<Rightarrow> (Inr k, s\<lparr>photoStore := st\<rparr>))"

text \<open>
  The index \<open>tripId\<close> of the photo store: \<open>index.getAll(key)\<close> returns the records whose
  \<open>tripId\<close> is the key, in the order of their primary keys.
\<close>

definition getPhotosByTripId :: "int \<Rightarrow> world \<Rightarrow> photo list" where
  "getPhotosByTripId t s =
     filter (\<lambda>p. tripId p = Some (parseInt t)) (store_getAll (photoStore s))"

definition deletePhoto :: "int \<Rightarrow> world \<Rightarrow> world" where
  "deletePhoto i s = s\<lparr>photoStore := store_delete (parseInt i) (photoStore s)\<rparr>"

text \<open>
  The loop of \<open>deletePhotosByTripId\<close>.  A photo without \<open>id\<close> makes \<open>parseInt\<close> return
  \<open>NaN\<close>, which \<open>store.delete\<close> refuses with a \<open>DataError\<close>; the photos deleted before stay
  deleted.
\<close>

fun deletePhotos :: "photo list \<Rightarrow> world \<Rightarrow> (error + unit) \<times> world" where
  "deletePhotos [] s = (Inr (), s)"
| "deletePhotos (p # ps) s =
     (case id' p of
        None \<Rightarrow> (Inl DataError, s)
      | Some i \<Rightarrow> deletePhotos ps (deletePhoto i s))"

definition deletePhotosByTripId :: "int \<Rightarrow> world \<Rightarrow> (error + unit) \<times> world" where
  "deletePhotosByTripId t s = deletePhotos (getPhotosByTripId t s) s"

definition getAllPhotos :: "world \<Rightarrow> photo list" where
  "getAllPhotos s = store_getAll (photoStore s)"

definition deleteTrip :: "int \<Rightarrow> world \<Rightarrow> (error + unit) \<times> world" where
  "deleteTrip i s =
     (case deletePhotosByTripId i s of
        (Inl e, s1) \<Rightarrow> (Inl e, s1)
      | (Inr u, s1) \<Rightarrow>
          (Inr (), s1\<lparr>tripStore := store_delete (parseInt i) (tripStore s1)\<rparr>))"

subsection \<open>Statistics\<close>

text \<open>
  \<open>Boolean\<close> as \<open>filter(Boolean)\<close> and the test \<open>t.place\<close> apply it to a string property:
  an absent property and the empty string are falsy.  A JavaScript \<open>Set\<close> of strings
  holds each string once, and \<open>size\<close> is the number of its elements.
\<close>

definition Boolean :: "string option \<Rightarrow> bool" where
  "Boolean v = (case v of None \<Rightarrow> False | Some str \<Rightarrow> str \<noteq> [])"

record stats =
  countries :: nat
  cities :: nat
  places :: nat
  photos :: nat
  trips :: nat

definition getStats :: "world \<Rightarrow> stats" where
  "getStats s =
     (let trips = getAllTrips s;
          photos = getAllPhotos s;
          countries = set (filter Boolean (map country trips));
          cities = set (filter Boolean (map city trips));
          places = length (filter (\<lambda>t. Boolean (place t)) trips)
      in \<lparr>countries = card countries,
          cities = card cities,
          places = places,
          photos = length photos,
          trips = length trips\<rparr>)"

subsection \<open>Export and import\<close>

definition DB_VERSION :: int where
  "DB_VERSION = 1"

text \<open>
  The export document, which is also what \<open>importData\<close> is handed.  \<open>importData\<close> tests
  \<open>data.trips\<close> and \<open>data.photos\<close> for truthiness: an array, also an empty one, is
  truthy, an absent property is not.  The parameter \<open>data\<close> of \<open>importData\<close> is \<open>doc\<close>
  below.
\<close>

record document =
  version :: int
  exportDate :: timestamp
  trips :: "trip list option"
  photos :: "photo list option"

definition exportData :: "world \<Rightarrow> document \<times> world" where
  "exportData s =
     (let trips = getAllTrips s;
          photos = getAllPhotos s;
          (d, s1) = newDate s
      in (\<lparr>version = DB_VERSION, exportDate = d,
           trips = Some trips, photos = Some photos\<rparr>, s1))"

definition clearAllData :: "world \<Rightarrow> world" where
  "clearAllData s =
     s\<lparr>tripStore := store_clear (tripStore s),
       photoStore := store_clear (photoStore s)\<rparr>"

text \<open>
  The two loops of \<open>importData\<close>.  The destructuring \<open>const { id, ...tripData } = trip\<close>
  drops the \<open>id\<close> and keeps every other property.  A rejected \<open>addTrip\<close> or \<open>addPhoto\<close>
  ends the import with what has been added so far.
\<close>

fun importTrips :: "trip list \<Rightarrow> world \<Rightarrow> (error + unit) \<times> world" where
  "importTrips [] s = (Inr (), s)"
| "importTrips (trip # rest) s =
     (case addTrip (trip\<lparr>id' := None\<rparr>) s of
        (Inl e, s1) \<Rightarrow> (Inl e, s1)
      | (Inr k, s1) \<Rightarrow> importTrips rest s1)"

fun importPhotos :: "photo list \<Rightarrow> world \<Rightarrow> (error + unit) \<times> world" where
  "importPhotos [] s = (Inr (), s)"
| "importPhotos (photo # rest) s =
     (case addPhoto (photo\<lparr>id' := None\<rparr>) s of
        (Inl e, s1) \<Rightarrow> (Inl e, s1)
      | (Inr k, s1) \<Rightarrow> importPhotos rest s1)"

definition importData :: "document \<Rightarrow> world \<Rightarrow> (error + bool) \<times> world" where
  "importData doc s =
     (case document.trips doc of
        None \<Rightarrow> (Inl InvalidDataFormat, s)
      | Some ts \<Rightarrow>
          (case importTrips ts (clearAllData s) of
             (Inl e, s2) \<Rightarrow> (Inl e, s2)
           | (Inr u, s2) \<Rightarrow>
               (case document.photos doc of
                  None \<Rightarrow> (Inr True, s2)
                | Some ps \<Rightarrow>
                    (case importPhotos ps s2 of
                       (Inl e, s3) \<Rightarrow> (Inl e, s3)
                     | (Inr u', s3) \<Rightarrow> (Inr True, s3)))))"

subsection \<open>Well-formed stores\<close>

text \<open>
  What the storage engine maintains of an object store with in-line keys and a key
  generator: the records are in strictly ascending key order, every value carries its
  key as \<open>id\<close>, and the generator is past every key, as far as the ceiling lets it (a
  generator at the end, \<open>keyCeiling + 1\<close>, is past every key it could issue).
\<close>

definition wf_store :: "'a stored_scheme objectStore \<Rightarrow> bool" where
  "wf_store st \<longleftrightarrow>
     sorted_wrt (<) (map fst (records st)) \<and>
     (\<forall>r \<in> set (records st).
        id' (snd r) = Some (fst r) \<and> min (fst r) keyCeiling < currentNumber st)"

definition wf_world :: "world \<Rightarrow> bool" where
  "wf_world s \<longleftrightarrow> wf_store (tripStore s) \<and> wf_store (photoStore s)"

subsection \<open>Example data\<close>

text \<open>
  The object \<open>{}\<close> read as a trip and as a photo, and a database built by the
  operations: two trips (Paris from 2024-06-01, Madrid from 2023-01-01), then three
  photos, the first and the third attached to the first trip.  The clock of the example advances by one millisecond at every reading.
  \<open>exampleDoc\<close> is an export document of another database: two trips with the ids 10
  and 20, and one photo of each.
\<close>

definition emptyTrip :: trip where
  "emptyTrip =
     \<lparr>id' = None, title = None, country = None, city = None, place = None,
      startDate = None, endDate = None, notes' = None, tags = None, favorite = None,
      coverPhoto = None, createdAt = None, updatedAt = None\<rparr>"

definition emptyPhoto :: photo where
  "emptyPhoto = \<lparr>id' = None, tripId = None, data = None, name = None, type = None\<rparr>"

definition paris :: trip where
  "paris = emptyTrip\<lparr>title := Some ''Paris'', country := Some ''France'',
                       city := Some ''Paris'', place := Some ''Louvre'',
                       startDate := Some 1717200000000\<rparr>"

definition madrid :: trip where
  "madrid = emptyTrip\<lparr>title := Some ''Madrid'', country := Some ''Spain'',
                        city := Some ''Madrid'', startDate := Some 1672531200000\<rparr>"

definition exampleClock :: "nat \<Rightarrow> timestamp" where
  "exampleClock n = 1000 + int n"

definition exampleDB :: world where
  "exampleDB =
     snd (addPhoto (emptyPhoto\<lparr>tripId := Some 1, name := Some ''c.jpg''\<rparr>)
     (snd (addPhoto (emptyPhoto\<lparr>tripId := Some 2, name := Some ''b.jpg''\<rparr>)
     (snd (addPhoto (emptyPhoto\<lparr>tripId := Some 1, name := Some ''a.jpg''\<rparr>)
     (snd (addTrip madrid
     (snd (addTrip paris (initDB exampleClock))))))))))"

definition exampleDoc :: document where
  "exampleDoc =
     \<lparr>version = 1, exportDate = 999,
      trips = Some [paris\<lparr>id' := Some 10\<rparr>, madrid\<lparr>id' := Some 20\<rparr>],
      photos = Some [emptyPhoto\<lparr>id' := Some 7, tripId := Some 20\<rparr>,
                     emptyPhoto\<lparr>id' := Some 8, tripId := Some 10\<rparr>]\<rparr>"

text \<open>
  A database whose trip key generator is used up: a trip is added with the id
  \<open>2 ^ 53 - 1\<close>, the greatest safe integer, and then a second one without an id, which
  gets the last key \<open>2 ^ 53\<close>.
\<close>

definition fullDB :: world where
  "fullDB =
     snd (addTrip madrid
     (snd (addTrip (paris\<lparr>id' := Some 9007199254740991\<rparr>) (initDB exampleClock))))"



section \<open>The object store\<close>

lemma map_of_insertRecord: "map_of (insertRecord k v rs) = (map_of rs)(k \<mapsto> v)"
  by (induction rs) (auto simp: fun_eq_iff)

lemma keys_insertRecord: "fst ` set (insertRecord k v rs) = insert k (fst ` set rs)"
  by (induction rs) auto

lemma set_insertRecord: "set (insertRecord k v rs) \<subseteq> insert (k, v) (set rs)"
  by (induction rs) auto


lemma insertRecord_last:
  "\<forall>r \<in> set rs. fst r < k \<Longrightarrow> insertRecord k v rs = rs @ [(k, v)]"
  by (induction rs) auto

lemma sorted_insertRecord:
  "sorted_wrt (<) (map fst rs) \<Longrightarrow> sorted_wrt (<) (map fst (insertRecord k v rs))"
proof (induction rs)
  case Nil
  show ?case by simp
next
  case (Cons r rs)
  have keys: "fst ` set (insertRecord k v rs) = insert k (fst ` set rs)"
    by (rule keys_insertRecord)
  from Cons show ?case
    by (auto simp: keys)
qed

lemma storeRecord_None:
  "id' v = None \<Longrightarrow>
   storeRecord b v st =
     (if keyCeiling < currentNumber st then Inl ConstraintError
      else if b \<and> currentNumber st \<in> fst ` set (records st) then Inl ConstraintError
      else Inr (currentNumber st,
                \<lparr>records = insertRecord (currentNumber st)
                             (v\<lparr>id' := Some (currentNumber st)\<rparr>) (records st),
                 currentNumber = currentNumber st + 1\<rparr>))"
  by (simp add: storeRecord_def)

lemma storeRecord_Some:
  "id' v = Some j \<Longrightarrow>
   storeRecord b v st =
     (if b \<and> j \<in> fst ` set (records st) then Inl ConstraintError
      else Inr (j, \<lparr>records = insertRecord j v (records st),
                    currentNumber =
                      (if currentNumber st \<le> min j keyCeiling then min j keyCeiling + 1
                       else currentNumber st)\<rparr>))"
  by (simp add: storeRecord_def)

lemma wf_store_insert:
  assumes "wf_store st" and "id' v = Some k" and "min k keyCeiling < n"
    and "currentNumber st \<le> n"
  shows "wf_store \<lparr>records = insertRecord k v (records st), currentNumber = n\<rparr>"
proof -
  have "sorted_wrt (<) (map fst (insertRecord k v (records st)))"
    using assms(1) by (simp add: wf_store_def sorted_insertRecord)
  moreover have "id' (snd r) = Some (fst r) \<and> min (fst r) keyCeiling < n"
    if "r \<in> set (insertRecord k v (records st))" for r
  proof -
    from that have "r = (k, v) \<or> r \<in> set (records st)"
      using set_insertRecord [of k v "records st"] by blast
    then show ?thesis
    proof
      assume "r = (k, v)"
      with assms(2,3) show ?thesis by simp
    next
      assume "r \<in> set (records st)"
      with assms(1) have "id' (snd r) = Some (fst r)"
        "min (fst r) keyCeiling < currentNumber st"
        by (simp_all add: wf_store_def)
      with assms(4) show ?thesis by simp
    qed
  qed
  ultimately show ?thesis by (simp add: wf_store_def)
qed

lemma wf_store_storeRecord:
  assumes "wf_store st" and "storeRecord b v st = Inr (k, st')"
  shows "wf_store st'"
proof (cases "id' v")
  case None
  let ?n = "currentNumber st"
  from assms(2) have "st' = \<lparr>records = insertRecord ?n (v\<lparr>id' := Some ?n\<rparr>) (records st),
                            currentNumber = ?n + 1\<rparr>"
    by (auto simp: storeRecord_None [OF None] split: if_splits)
  moreover have "wf_store \<lparr>records = insertRecord ?n (v\<lparr>id' := Some ?n\<rparr>) (records st),
                            currentNumber = ?n + 1\<rparr>"
    by (rule wf_store_insert [OF assms(1)]) simp_all
  ultimately show ?thesis by simp
next
  case (Some j)
  let ?n = "if currentNumber st \<le> min j keyCeiling then min j keyCeiling + 1
            else currentNumber st"
  from assms(2) have "st' = \<lparr>records = insertRecord j v (records st), currentNumber = ?n\<rparr>"
    by (auto simp: storeRecord_Some [OF Some] split: if_splits)
  moreover have "wf_store \<lparr>records = insertRecord j v (records st), currentNumber = ?n\<rparr>"
    by (rule wf_store_insert [OF assms(1) Some]) (auto simp: min_def)
  ultimately show ?thesis by simp
qed

lemma wf_store_delete: "wf_store st \<Longrightarrow> wf_store (store_delete k st)"
  by (auto simp: wf_store_def store_delete_def sorted_wrt_map intro: sorted_wrt_filter)

lemma wf_store_clear: "wf_store (store_clear st)"
  by (simp add: wf_store_def store_clear_def)


section \<open>Cascading deletion\<close>






section \<open>The operations keep the stores well formed\<close>


lemma addTrip_eq:
  "addTrip d s =
     (case store_add (d\<lparr>createdAt := Some (clock s 0), updatedAt := Some (clock s 1)\<rparr>)
             (tripStore s) of
        Inl e \<Rightarrow> (Inl e, s\<lparr>clock := \<lambda>n. clock s (Suc (Suc n))\<rparr>)
      | Inr (k, st) \<Rightarrow> (Inr k, s\<lparr>clock := \<lambda>n. clock s (Suc (Suc n)), tripStore := st\<rparr>))"
  by (simp add: addTrip_def newDate_def split: sum.split prod.split)

lemma updateTrip_eq:
  "updateTrip i d s =
     (Inr i, s\<lparr>clock := \<lambda>n. clock s (Suc n),
               tripStore := \<lparr>records = insertRecord i (d\<lparr>id' := Some i, updatedAt := Some (clock s 0)\<rparr>)
                                         (records (tripStore s)),
                              currentNumber =
                                (if currentNumber (tripStore s) \<le> min i keyCeiling
                                 then min i keyCeiling + 1
                                 else currentNumber (tripStore s))\<rparr>\<rparr>)"
  by (simp add: updateTrip_def newDate_def store_put_def storeRecord_def parseInt_def)

lemma wf_initDB: "wf_world (initDB clk)"
  by (simp add: wf_world_def wf_store_def initDB_def)

lemma wf_addTrip: "wf_world s \<Longrightarrow> wf_world (snd (addTrip d s))"
  by (auto simp: addTrip_eq wf_world_def store_add_def split: sum.split dest: wf_store_storeRecord)

lemma wf_updateTrip: "wf_world s \<Longrightarrow> wf_world (snd (updateTrip i d s))"
proof -
  assume "wf_world s"
  then have t: "wf_store (tripStore s)" and p: "wf_store (photoStore s)"
    by (simp_all add: wf_world_def)
  have "wf_store \<lparr>records = insertRecord i (d\<lparr>id' := Some i, updatedAt := Some (clock s 0)\<rparr>)
                                 (records (tripStore s)),
                  currentNumber =
                    (if currentNumber (tripStore s) \<le> min i keyCeiling
                     then min i keyCeiling + 1
                     else currentNumber (tripStore s))\<rparr>"
    by (rule wf_store_insert [OF t]) (auto simp: min_def)
  with p show ?thesis
    by (simp add: updateTrip_eq wf_world_def)
qed

lemma wf_addPhoto: "wf_world s \<Longrightarrow> wf_world (snd (addPhoto p s))"
  by (auto simp: addPhoto_def wf_world_def store_add_def split: sum.split dest: wf_store_storeRecord)

lemma wf_deletePhoto: "wf_world s \<Longrightarrow> wf_world (deletePhoto i s)"
  by (simp add: deletePhoto_def wf_world_def wf_store_delete)

lemma wf_deletePhotos: "wf_world s \<Longrightarrow> wf_world (snd (deletePhotos ps s))"
  by (induction ps arbitrary: s) (auto simp: wf_deletePhoto split: option.split)

lemma wf_deleteTrip: "wf_world s \<Longrightarrow> wf_world (snd (deleteTrip t s))"
proof -
  assume "wf_world s"
  then have "wf_world (snd (deletePhotosByTripId t s))"
    by (simp add: deletePhotosByTripId_def wf_deletePhotos)
  then show ?thesis
    by (auto simp: deleteTrip_def wf_world_def wf_store_delete split: prod.split sum.split)
qed

lemma wf_clearAllData: "wf_world (clearAllData s)"
  by (simp add: clearAllData_def wf_world_def wf_store_clear)

lemma wf_importTrips: "wf_world s \<Longrightarrow> wf_world (snd (importTrips ts s))"
proof (induction ts arbitrary: s)
  case Nil
  then show ?case by simp
next
  case (Cons t ts)
  from Cons.prems have "wf_world (snd (addTrip (t\<lparr>id' := None\<rparr>) s))" by (rule wf_addTrip)
  with Cons.IH show ?case
    by (cases "addTrip (t\<lparr>id' := None\<rparr>) s") (auto split: sum.split)
qed

lemma wf_importPhotos: "wf_world s \<Longrightarrow> wf_world (snd (importPhotos ps s))"
proof (induction ps arbitrary: s)
  case Nil
  then show ?case by simp
next
  case (Cons p ps)
  from Cons.prems have "wf_world (snd (addPhoto (p\<lparr>id' := None\<rparr>) s))" by (rule wf_addPhoto)
  with Cons.IH show ?case
    by (cases "addPhoto (p\<lparr>id' := None\<rparr>) s") (auto split: sum.split)
qed

lemma wf_importData: "wf_world s \<Longrightarrow> wf_world (snd (importData doc s))"
proof -
  assume s: "wf_world s"
  show ?thesis
  proof (cases "document.trips doc")
    case None
    with s show ?thesis by (simp add: importData_def)
  next
    case (Some ts)
    have 1: "wf_world (snd (importTrips ts (clearAllData s)))"
      by (rule wf_importTrips [OF wf_clearAllData])
    have 2: "wf_world (snd (importPhotos ps (snd (importTrips ts (clearAllData s)))))" for ps
      by (rule wf_importPhotos [OF 1])
    from 1 2 show ?thesis
      by (auto simp: importData_def Some split: prod.split sum.split option.split)
         (metis snd_conv)+
  qed
qed

lemma wf_exportData: "wf_world s \<Longrightarrow> wf_world (snd (exportData s))"
  by (simp add: exportData_def newDate_def wf_world_def)

section \<open>The example database\<close>

lemma exampleDB_eq:
  "exampleDB =
     \<lparr>tripStore =
        \<lparr>records =
           [(1, paris\<lparr>id' := Some 1, createdAt := Some 1000, updatedAt := Some 1001\<rparr>),
            (2, madrid\<lparr>id' := Some 2, createdAt := Some 1002, updatedAt := Some 1003\<rparr>)],
         currentNumber = 3\<rparr>,
      photoStore =
        \<lparr>records =
           [(1, emptyPhoto\<lparr>id' := Some 1, tripId := Some 1, name := Some ''a.jpg''\<rparr>),
            (2, emptyPhoto\<lparr>id' := Some 2, tripId := Some 2, name := Some ''b.jpg''\<rparr>),
            (3, emptyPhoto\<lparr>id' := Some 3, tripId := Some 1, name := Some ''c.jpg''\<rparr>)],
         currentNumber = 4\<rparr>,
      clock = \<lambda>n. 1004 + int n\<rparr>"
  by (simp add: exampleDB_def addTrip_eq addPhoto_def store_add_def storeRecord_def initDB_def
      exampleClock_def paris_def madrid_def emptyTrip_def emptyPhoto_def keyCeiling_def)

lemma wf_exampleDB: "wf_world exampleDB"
  unfolding exampleDB_def
  by (intro wf_addPhoto wf_addTrip wf_initDB)

section \<open>Deleting a trip\<close>





section \<open>Keys issued by the generator\<close>

lemma store_get_None_iff: "store_get k st = None \<longleftrightarrow> k \<notin> fst ` set (records st)"
  by (simp add: store_get_def map_of_eq_None_iff)

lemma wf_store_below:
  assumes "wf_store st" and "currentNumber st \<le> keyCeiling"
  shows "\<forall>r \<in> set (records st). fst r < currentNumber st"
proof
  fix r assume "r \<in> set (records st)"
  with assms(1) have "min (fst r) keyCeiling < currentNumber st"
    by (simp add: wf_store_def)
  with assms(2) show "fst r < currentNumber st"
    by (simp add: min_def split: if_splits)
qed

lemma wf_store_fresh:
  assumes "wf_store st" and "currentNumber st \<le> keyCeiling"
  shows "currentNumber st \<notin> fst ` set (records st)"
  using wf_store_below [OF assms] by auto

lemma store_add_generated:
  assumes "wf_store st" and "id' v = None" and "currentNumber st \<le> keyCeiling"
  shows "store_add v st =
           Inr (currentNumber st,
                \<lparr>records = records st @ [(currentNumber st, v\<lparr>id' := Some (currentNumber st)\<rparr>)],
                 currentNumber = currentNumber st + 1\<rparr>)"
proof -
  have "insertRecord (currentNumber st) w (records st) = records st @ [(currentNumber st, w)]"
    for w :: "'a stored_scheme"
    by (rule insertRecord_last [OF wf_store_below [OF assms(1,3)]])
  with wf_store_fresh [OF assms(1,3)] assms(3) show ?thesis
    by (simp add: store_add_def storeRecord_None [OF assms(2)])
qed

lemma store_add_exhausted:
  assumes "id' v = None" and "keyCeiling < currentNumber st"
  shows "store_add v st = Inl ConstraintError"
  using assms(2) by (simp add: store_add_def storeRecord_None [OF assms(1)])

lemma addTrip_generated:
  assumes "wf_store (tripStore s)" and "id' d = None"
    and "currentNumber (tripStore s) \<le> keyCeiling"
  shows "addTrip d s =
           (Inr (currentNumber (tripStore s)),
            s\<lparr>clock := \<lambda>n. clock s (Suc (Suc n)),
              tripStore :=
                \<lparr>records = records (tripStore s) @
                   [(currentNumber (tripStore s),
                     d\<lparr>id' := Some (currentNumber (tripStore s)),
                       createdAt := Some (clock s 0), updatedAt := Some (clock s 1)\<rparr>)],
                 currentNumber = currentNumber (tripStore s) + 1\<rparr>\<rparr>)"
  using assms by (simp add: addTrip_eq store_add_generated)

lemma addTrip_exhausted:
  assumes "id' d = None" and "keyCeiling < currentNumber (tripStore s)"
  shows "addTrip d s = (Inl ConstraintError, s\<lparr>clock := \<lambda>n. clock s (Suc (Suc n))\<rparr>)"
  using assms by (simp add: addTrip_eq store_add_exhausted)

lemma addPhoto_generated:
  assumes "wf_store (photoStore s)" and "id' p = None"
    and "currentNumber (photoStore s) \<le> keyCeiling"
  shows "addPhoto p s =
           (Inr (currentNumber (photoStore s)),
            s\<lparr>photoStore :=
                \<lparr>records = records (photoStore s) @
                   [(currentNumber (photoStore s), p\<lparr>id' := Some (currentNumber (photoStore s))\<rparr>)],
                 currentNumber = currentNumber (photoStore s) + 1\<rparr>\<rparr>)"
  using assms by (simp add: addPhoto_def store_add_generated)

lemma addPhoto_exhausted:
  assumes "id' p = None" and "keyCeiling < currentNumber (photoStore s)"
  shows "addPhoto p s = (Inl ConstraintError, s)"
  using assms by (simp add: addPhoto_def store_add_exhausted)

lemma mset_insertSorted: "mset (insertSorted f x ys) = add_mset x (mset ys)"
  by (induction ys) auto

lemma mset_sortArray: "mset (sortArray f xs) = mset xs"
  unfolding sortArray_def by (induction xs) (auto simp: mset_insertSorted)

lemma set_sortArray: "set (sortArray f xs) = set xs"
  by (metis mset_sortArray set_mset_mset)

lemma length_sortArray: "length (sortArray f xs) = length xs"
  by (metis mset_sortArray size_mset)

section \<open>Adding a trip\<close>

text \<open>
  Claim C2, as stated, fails: \<open>addTrip\<close> checks nothing.  Handed the object \<open>{}\<close>, which has
  none of \<open>title\<close>, \<open>country\<close>, \<open>city\<close> and \<open>startDate\<close>, on the empty database, it
  succeeds with the id 1 and the record is stored.
\<close>

theorem addTrip_required_fields_counterexample:
  "title emptyTrip = None \<and> country emptyTrip = None \<and> city emptyTrip = None \<and>
   startDate emptyTrip = None \<and>
   getAllTrips (initDB exampleClock) = [] \<and>
   fst (addTrip emptyTrip (initDB exampleClock)) = Inr 1 \<and>
   getAllTrips (snd (addTrip emptyTrip (initDB exampleClock))) =
     [emptyTrip\<lparr>id' := Some 1, createdAt := Some 1000, updatedAt := Some 1001\<rparr>]"
  by (simp add: addTrip_eq store_add_def storeRecord_def initDB_def exampleClock_def
      emptyTrip_def getAllTrips_def store_getAll_def sortArray_def keyCeiling_def)

text \<open>
  Claim C2, amended.  \<open>addTrip\<close> does no validation (the trip form marks the four inputs
  as required; the store does not look at them): in a well-formed database whose trip
  key generator has not passed its ceiling \<open>2 ^ 53\<close>, for every \<open>tripData\<close> without an
  \<open>id\<close>, whatever other fields are present or absent, \<open>addTrip\<close> succeeds, returns the
  current number of the key generator, and appends one record: the \<open>tripData\<close> with that
  id and the two time stamps.
\<close>

theorem addTrip_no_validation:
  assumes "wf_world s" and "id' tripData = None"
    and "currentNumber (tripStore s) \<le> keyCeiling"
  shows "fst (addTrip tripData s) = Inr (currentNumber (tripStore s)) \<and>
         store_getAll (tripStore (snd (addTrip tripData s))) =
           store_getAll (tripStore s) @
             [tripData\<lparr>id' := Some (currentNumber (tripStore s)),
                       createdAt := Some (clock s 0), updatedAt := Some (clock s 1)\<rparr>] \<and>
         length (getAllTrips (snd (addTrip tripData s))) = Suc (length (getAllTrips s))"
proof -
  from assms(1) have t: "wf_store (tripStore s)" by (simp add: wf_world_def)
  show ?thesis
    by (simp add: addTrip_generated [OF t assms(2,3)] store_getAll_def getAllTrips_def
        length_sortArray)
qed

theorem addTrip_no_validation_witness:
  "wf_world (initDB exampleClock) \<and> id' emptyTrip = None \<and>
   currentNumber (tripStore (initDB exampleClock)) \<le> keyCeiling \<and>
   title emptyTrip = None \<and> country emptyTrip = None \<and> city emptyTrip = None \<and>
   startDate emptyTrip = None \<and>
   fst (addTrip emptyTrip (initDB exampleClock)) = Inr 1 \<and>
   length (getAllTrips (snd (addTrip emptyTrip (initDB exampleClock)))) = 1"
proof -
  have i: "id' emptyTrip = None" by (simp add: emptyTrip_def)
  have e: "title emptyTrip = None \<and> country emptyTrip = None \<and> city emptyTrip = None \<and>
   startDate emptyTrip = None" by (simp add: emptyTrip_def)
  have room: "currentNumber (tripStore (initDB exampleClock)) \<le> keyCeiling"
    by (simp add: initDB_def keyCeiling_def)
  have z: "currentNumber (tripStore (initDB exampleClock)) = 1"
    "length (getAllTrips (initDB exampleClock)) = 0"
    by (simp_all add: initDB_def getAllTrips_def store_getAll_def sortArray_def)
  from addTrip_no_validation [OF wf_initDB i room] z
  have "fst (addTrip emptyTrip (initDB exampleClock)) = Inr 1"
    "length (getAllTrips (snd (addTrip emptyTrip (initDB exampleClock)))) = 1"
    by simp_all
  with wf_initDB i e room show ?thesis by blast
qed

section \<open>Updating a trip\<close>








section \<open>The id of an added trip\<close>

text \<open>
  Claim C4, as stated, fails: \<open>addTrip\<close> spreads \<open>tripData\<close> into the object it stores, and
  the store takes the key of an object from its \<open>id\<close>.  On the empty database, whose
  key generator stands at 1, a \<open>tripData\<close> carrying the id 42 is stored under 42.
\<close>

theorem addTrip_caller_id_counterexample:
  "currentNumber (tripStore (initDB exampleClock)) = 1 \<and>
   fst (addTrip (paris\<lparr>id' := Some 42\<rparr>) (initDB exampleClock)) = Inr 42 \<and>
   getAllTrips (snd (addTrip (paris\<lparr>id' := Some 42\<rparr>) (initDB exampleClock))) =
     [paris\<lparr>id' := Some 42, createdAt := Some 1000, updatedAt := Some 1001\<rparr>]"
  by (simp add: addTrip_eq store_add_def storeRecord_def initDB_def exampleClock_def
      getAllTrips_def store_getAll_def sortArray_def keyCeiling_def)

lemma getTrip_addTrip_key:
  assumes "id' d = Some k" and "getTrip k s = None"
  shows "addTrip d s =
           (Inr k, s\<lparr>clock := \<lambda>n. clock s (Suc (Suc n)),
               tripStore :=
                 \<lparr>records = insertRecord k (d\<lparr>createdAt := Some (clock s 0),
                                               updatedAt := Some (clock s 1)\<rparr>)
                              (records (tripStore s)),
                  currentNumber =
                    (if currentNumber (tripStore s) \<le> min k keyCeiling
                     then min k keyCeiling + 1
                     else currentNumber (tripStore s))\<rparr>\<rparr>)"
proof -
  from assms(2) have "k \<notin> fst ` set (records (tripStore s))"
    by (simp add: getTrip_def parseInt_def store_get_None_iff)
  with assms(1) show ?thesis
    by (simp add: addTrip_eq store_add_def storeRecord_Some [where j = k])
qed

lemma addTrip_key_taken:
  assumes "id' d = Some k" and "getTrip k s \<noteq> None"
  shows "addTrip d s = (Inl ConstraintError, s\<lparr>clock := \<lambda>n. clock s (Suc (Suc n))\<rparr>)"
proof -
  from assms(2) have "k \<in> fst ` set (records (tripStore s))"
    by (simp add: getTrip_def parseInt_def store_get_None_iff)
  with assms(1) show ?thesis
    by (simp add: addTrip_eq store_add_def storeRecord_Some [where j = k])
qed

text \<open>
  Claim C4, amended.  In a well-formed database:
  \<^item> for every \<open>tripData\<close> that carries no \<open>id\<close>, as long as the key generator has not
    passed its ceiling \<open>2 ^ 53\<close>, the id of the stored record is issued by the store: it
    is the current number of the key generator, which is greater than the key of every
    stored trip (so no trip has it), and the generator then moves on by one; once the
    generator has passed its ceiling, such an \<open>addTrip\<close> is rejected with a
    \<open>ConstraintError\<close> and the trip store is unchanged;
  \<^item> a caller-supplied \<open>id\<close> is not ignored: when no trip has that id, the record is
    stored under it, and the generator is moved past it as far as the ceiling allows
    (past the id itself when the id is at most \<open>2 ^ 53\<close>); when a trip has it, \<open>addTrip\<close>
    is rejected with a \<open>ConstraintError\<close> and the trip store is unchanged.
\<close>

theorem addTrip_id:
  assumes "wf_world s"
  shows "(id' tripData = None \<and> currentNumber (tripStore s) \<le> keyCeiling \<longrightarrow>
            fst (addTrip tripData s) = Inr (currentNumber (tripStore s)) \<and>
            getTrip (currentNumber (tripStore s)) s = None \<and>
            (\<forall>r \<in> set (records (tripStore s)). fst r < currentNumber (tripStore s)) \<and>
            getTrip (currentNumber (tripStore s)) (snd (addTrip tripData s)) =
              Some (tripData\<lparr>id' := Some (currentNumber (tripStore s)),
                             createdAt := Some (clock s 0), updatedAt := Some (clock s 1)\<rparr>) \<and>
            currentNumber (tripStore (snd (addTrip tripData s))) =
              currentNumber (tripStore s) + 1) \<and>
         (id' tripData = None \<and> keyCeiling < currentNumber (tripStore s) \<longrightarrow>
            fst (addTrip tripData s) = Inl ConstraintError \<and>
            tripStore (snd (addTrip tripData s)) = tripStore s) \<and>
         (\<forall>k. id' tripData = Some k \<and> getTrip k s = None \<longrightarrow>
            fst (addTrip tripData s) = Inr k \<and>
            getTrip k (snd (addTrip tripData s)) =
              Some (tripData\<lparr>createdAt := Some (clock s 0), updatedAt := Some (clock s 1)\<rparr>) \<and>
            min k keyCeiling < currentNumber (tripStore (snd (addTrip tripData s))) \<and>
            (k \<le> keyCeiling \<longrightarrow> k < currentNumber (tripStore (snd (addTrip tripData s))))) \<and>
         (\<forall>k. id' tripData = Some k \<and> getTrip k s \<noteq> None \<longrightarrow>
            fst (addTrip tripData s) = Inl ConstraintError \<and>
            tripStore (snd (addTrip tripData s)) = tripStore s)"
proof -
  from assms have t: "wf_store (tripStore s)" by (simp add: wf_world_def)
  have generated: ?thesis
    if none: "id' tripData = None" and room: "currentNumber (tripStore s) \<le> keyCeiling"
  proof -
    have fresh: "getTrip (currentNumber (tripStore s)) s = None"
      using wf_store_fresh [OF t room]
      by (simp add: getTrip_def parseInt_def store_get_None_iff)
    note below = wf_store_below [OF t room]
    have stored: "getTrip (currentNumber (tripStore s)) (snd (addTrip tripData s)) =
              Some (tripData\<lparr>id' := Some (currentNumber (tripStore s)),
                             createdAt := Some (clock s 0), updatedAt := Some (clock s 1)\<rparr>)"
      using fresh
      by (simp add: addTrip_generated [OF t none room] getTrip_def store_get_def parseInt_def
          map_add_Some_iff)
    from none room fresh below stored show ?thesis
      by (simp add: addTrip_generated [OF t none room])
  qed
  have exhausted: ?thesis
    if none: "id' tripData = None" and full: "keyCeiling < currentNumber (tripStore s)"
    using none full by (simp add: addTrip_exhausted [OF none full])
  have supplied: ?thesis if some: "id' tripData = Some k" and free: "getTrip k s = None" for k
    using some free
    by (simp add: getTrip_addTrip_key [OF some free] getTrip_def store_get_def parseInt_def
        map_of_insertRecord min_def)
  have taken: ?thesis if some: "id' tripData = Some k" and used: "getTrip k s \<noteq> None" for k
    using some used by (auto simp: addTrip_key_taken [OF some used])
  show ?thesis
  proof (cases "id' tripData")
    case None
    show ?thesis
    proof (cases "currentNumber (tripStore s) \<le> keyCeiling")
      case True
      with None show ?thesis by (rule generated)
    next
      case False
      then have "keyCeiling < currentNumber (tripStore s)" by simp
      with None show ?thesis by (rule exhausted)
    qed
  next
    case (Some k)
    show ?thesis
    proof (cases "getTrip k s")
      case None
      with Some show ?thesis by (rule supplied)
    next
      case (Some old)
      then have "getTrip k s \<noteq> None" by simp
      with \<open>id' tripData = Some k\<close> show ?thesis by (rule taken)
    qed
  qed
qed

theorem addTrip_id_witness:
  "wf_world exampleDB \<and>
   fst (addTrip paris exampleDB) = Inr 3 \<and>
   getTrip 3 exampleDB = None \<and>
   getTrip 3 (snd (addTrip paris exampleDB)) =
     Some (paris\<lparr>id' := Some 3, createdAt := Some 1004, updatedAt := Some 1005\<rparr>) \<and>
   fst (addTrip (paris\<lparr>id' := Some 42\<rparr>) exampleDB) = Inr 42 \<and>
   getTrip 42 (snd (addTrip (paris\<lparr>id' := Some 42\<rparr>) exampleDB)) =
     Some (paris\<lparr>id' := Some 42, createdAt := Some 1004, updatedAt := Some 1005\<rparr>) \<and>
   fst (addTrip (paris\<lparr>id' := Some 2\<rparr>) exampleDB) = Inl ConstraintError \<and>
   tripStore (snd (addTrip (paris\<lparr>id' := Some 2\<rparr>) exampleDB)) = tripStore exampleDB"
proof -
  have ex: "currentNumber (tripStore exampleDB) = 3" "clock exampleDB 0 = 1004"
    "clock exampleDB 1 = 1005" "id' paris = None"
    "getTrip 42 exampleDB = None" "getTrip 2 exampleDB \<noteq> None"
    "currentNumber (tripStore exampleDB) \<le> keyCeiling"
    by (simp_all add: exampleDB_eq paris_def emptyTrip_def getTrip_def store_get_def parseInt_def
        keyCeiling_def)
  from addTrip_id [OF wf_exampleDB, of paris] ex have a:
    "fst (addTrip paris exampleDB) = Inr 3"
    "getTrip 3 exampleDB = None"
    "getTrip 3 (snd (addTrip paris exampleDB)) =
       Some (paris\<lparr>id' := Some 3, createdAt := Some 1004, updatedAt := Some 1005\<rparr>)"
    by simp_all
  from addTrip_id [OF wf_exampleDB, of "paris\<lparr>id' := Some 42\<rparr>"] ex have b:
    "fst (addTrip (paris\<lparr>id' := Some 42\<rparr>) exampleDB) = Inr 42"
    "getTrip 42 (snd (addTrip (paris\<lparr>id' := Some 42\<rparr>) exampleDB)) =
       Some (paris\<lparr>id' := Some 42, createdAt := Some 1004, updatedAt := Some 1005\<rparr>)"
    by simp_all
  from addTrip_id [OF wf_exampleDB, of "paris\<lparr>id' := Some 2\<rparr>"] ex have c:
    "fst (addTrip (paris\<lparr>id' := Some 2\<rparr>) exampleDB) = Inl ConstraintError"
    "tripStore (snd (addTrip (paris\<lparr>id' := Some 2\<rparr>) exampleDB)) = tripStore exampleDB"
    by simp_all
  from wf_exampleDB a b c show ?thesis by blast
qed

section \<open>Statistics\<close>

lemma Boolean_iff: "Boolean v \<longleftrightarrow> (\<exists>c. v = Some c \<and> c \<noteq> [])"
  by (cases v) (simp_all add: Boolean_def)

lemma card_distinct_values:
  assumes "set ts' = set ts"
  shows "card (set (filter Boolean (map f ts'))) =
         card {c. c \<noteq> [] \<and> (\<exists>t \<in> set ts. f t = Some c)}"
proof -
  have "set (filter Boolean (map f ts')) =
        Some ` {c. c \<noteq> [] \<and> (\<exists>t \<in> set ts. f t = Some c)}"
    unfolding assms [symmetric]
    by (force simp: Boolean_iff image_iff)
  then show ?thesis
    by (simp add: card_image)
qed

lemma length_filter_sortArray: "length (filter P (sortArray f xs)) = length (filter P xs)"
proof -
  have "mset (filter P (sortArray f xs)) = mset (filter P xs)"
    by (simp add: mset_sortArray)
  then show ?thesis by (metis size_mset)
qed

text \<open>
  Claim C9.  In every state of the database \<open>getStats\<close> returns: as \<open>countries\<close> the
  number of distinct non-empty \<open>country\<close> values of the stored trips, as \<open>cities\<close> the
  number of distinct non-empty \<open>city\<close> values, as \<open>places\<close> the number of stored trips
  with a non-empty \<open>place\<close>, as \<open>photos\<close> the number of stored photos and as \<open>trips\<close> the
  number of stored trips.  The state is arbitrary, so this holds after any sequence of
  operations, adds and deletes included: \<open>trips\<close> is always the current number of trips.
\<close>

theorem getStats_counts:
  "getStats s =
     \<lparr>countries =
        card {c. c \<noteq> [] \<and> (\<exists>t \<in> set (store_getAll (tripStore s)). country t = Some c)},
      cities =
        card {c. c \<noteq> [] \<and> (\<exists>t \<in> set (store_getAll (tripStore s)). city t = Some c)},
      places =
        length (filter (\<lambda>t. \<exists>p. place t = Some p \<and> p \<noteq> []) (store_getAll (tripStore s))),
      photos = length (store_getAll (photoStore s)),
      trips = length (store_getAll (tripStore s))\<rparr>"
proof -
  let ?ts = "store_getAll (tripStore s)"
  have set_eq: "set (getAllTrips s) = set ?ts"
    by (simp add: getAllTrips_def set_sortArray)
  have c1: "card (set (filter Boolean (map country (getAllTrips s)))) =
      card {c. c \<noteq> [] \<and> (\<exists>t \<in> set ?ts. country t = Some c)}"
    by (rule card_distinct_values [OF set_eq])
  have c2: "card (set (filter Boolean (map city (getAllTrips s)))) =
      card {c. c \<noteq> [] \<and> (\<exists>t \<in> set ?ts. city t = Some c)}"
    by (rule card_distinct_values [OF set_eq])
  have c3: "length (filter (\<lambda>t. Boolean (place t)) (getAllTrips s)) =
      length (filter (\<lambda>t. \<exists>p. place t = Some p \<and> p \<noteq> []) ?ts)"
    by (simp add: getAllTrips_def length_filter_sortArray Boolean_iff)
  have c4: "length (getAllTrips s) = length ?ts"
    by (simp add: getAllTrips_def length_sortArray)
  show ?thesis
    unfolding getStats_def Let_def c1 c2 c3 c4 getAllPhotos_def ..
qed

theorem getStats_counts_witness:
  "getStats exampleDB = \<lparr>countries = 2, cities = 2, places = 1, photos = 3, trips = 2\<rparr> \<and>
   card {c. c \<noteq> [] \<and> (\<exists>t \<in> set (store_getAll (tripStore exampleDB)). country t = Some c)} = 2 \<and>
   length (store_getAll (tripStore exampleDB)) = 2"
proof -
  have ts: "getAllTrips exampleDB =
     [paris\<lparr>id' := Some 1, createdAt := Some 1000, updatedAt := Some 1001\<rparr>,
      madrid\<lparr>id' := Some 2, createdAt := Some 1002, updatedAt := Some 1003\<rparr>]"
    by (simp add: exampleDB_eq getAllTrips_def store_getAll_def sortArray_def sortCompare_def
        compareTrips_def paris_def madrid_def emptyTrip_def)
  have ev: "getStats exampleDB = \<lparr>countries = 2, cities = 2, places = 1, photos = 3, trips = 2\<rparr>"
    unfolding getStats_def Let_def ts
    by (simp add: exampleDB_eq getAllPhotos_def store_getAll_def Boolean_def
        paris_def madrid_def emptyTrip_def card_insert_if)
  from getStats_counts [of exampleDB] ev have
    "card {c. c \<noteq> [] \<and> (\<exists>t \<in> set (store_getAll (tripStore exampleDB)). country t = Some c)} = 2"
    "length (store_getAll (tripStore exampleDB)) = 2"
    by simp_all
  with ev show ?thesis by blast
qed

section \<open>Import\<close>

lemma importTrips_records:
  assumes "wf_store (tripStore s)" and "hasRoom (tripStore s) (length ts)"
  shows "fst (importTrips ts s) = Inr () \<and>
         photoStore (snd (importTrips ts s)) = photoStore s \<and>
         wf_store (tripStore (snd (importTrips ts s))) \<and>
         records (tripStore (snd (importTrips ts s))) =
           records (tripStore s) @
           map (\<lambda>(i, t). (currentNumber (tripStore s) + int i,
                  t\<lparr>id' := Some (currentNumber (tripStore s) + int i),
                    createdAt := Some (clock s (2 * i)),
                    updatedAt := Some (clock s (2 * i + 1))\<rparr>))
               (enumerate 0 ts)"
  using assms
proof (induction ts arbitrary: s)
  case Nil
  then show ?case by simp
next
  case (Cons t ts)
  let ?n = "currentNumber (tripStore s)"
  let ?r = "(?n, t\<lparr>id' := Some ?n, createdAt := Some (clock s 0), updatedAt := Some (clock s 1)\<rparr>)"
  from Cons.prems(2) have room: "?n \<le> keyCeiling"
    by (simp add: hasRoom_def)
  have none: "id' (t\<lparr>id' := None\<rparr>) = None" by simp
  note gen = addTrip_generated [OF Cons.prems(1) none room]
  define s1 where "s1 = snd (addTrip (t\<lparr>id' := None\<rparr>) s)"
  have add: "addTrip (t\<lparr>id' := None\<rparr>) s = (Inr ?n, s1)"
    unfolding s1_def by (simp add: gen)
  have s1: "photoStore s1 = photoStore s" "currentNumber (tripStore s1) = ?n + 1"
    "records (tripStore s1) = records (tripStore s) @ [?r]"
    "clock s1 = (\<lambda>n. clock s (Suc (Suc n)))"
    unfolding s1_def by (simp_all add: gen)
  have wf1: "wf_store (tripStore s1)"
    using Cons.prems(1) wf_store_storeRecord [of "tripStore s" True]
    unfolding s1_def by (auto simp: addTrip_eq store_add_def split: sum.split)
  from Cons.prems(2) have room1: "hasRoom (tripStore s1) (length ts)"
    by (simp add: hasRoom_def s1(2))
  have step: "importTrips (t # ts) s = importTrips ts s1"
    by (simp add: add)
  have shift: "map (\<lambda>(i, t). (?n + 1 + int i,
                  t\<lparr>id' := Some (?n + 1 + int i), createdAt := Some (clock s1 (2 * i)),
                    updatedAt := Some (clock s1 (Suc (2 * i)))\<rparr>)) (enumerate 0 ts) =
               map (\<lambda>(i, t). (?n + int i,
                  t\<lparr>id' := Some (?n + int i), createdAt := Some (clock s (2 * i)),
                    updatedAt := Some (clock s (Suc (2 * i)))\<rparr>)) (enumerate (Suc 0) ts)"
    by (simp add: enumerate_Suc_eq [of 0] s1(4) apfst_def map_prod_def case_prod_beta
        add.assoc add.commute)
  from Cons.IH [OF wf1 room1] show ?case
    unfolding step by (simp add: s1(1-3) shift del: importTrips.simps)
qed

lemma importTrips_no_room:
  assumes "wf_store (tripStore s)" and "\<not> hasRoom (tripStore s) (length ts)"
  shows "fst (importTrips ts s) = Inl ConstraintError \<and>
         photoStore (snd (importTrips ts s)) = photoStore s \<and>
         length (records (tripStore (snd (importTrips ts s)))) <
           length (records (tripStore s)) + length ts"
  using assms
proof (induction ts arbitrary: s)
  case Nil
  then show ?case by (simp add: hasRoom_def)
next
  case (Cons t ts)
  let ?n = "currentNumber (tripStore s)"
  have none: "id' (t\<lparr>id' := None\<rparr>) = None" by simp
  show ?case
  proof (cases "?n \<le> keyCeiling")
    case False
    then have full: "keyCeiling < ?n" by simp
    show ?thesis
      by (simp add: addTrip_exhausted [OF none full])
  next
    case True
    note gen = addTrip_generated [OF Cons.prems(1) none True]
    define s1 where "s1 = snd (addTrip (t\<lparr>id' := None\<rparr>) s)"
    have add: "addTrip (t\<lparr>id' := None\<rparr>) s = (Inr ?n, s1)"
      unfolding s1_def by (simp add: gen)
    have s1: "photoStore s1 = photoStore s" "currentNumber (tripStore s1) = ?n + 1"
      "length (records (tripStore s1)) = Suc (length (records (tripStore s)))"
      unfolding s1_def by (simp_all add: gen)
    have wf1: "wf_store (tripStore s1)"
      using Cons.prems(1) wf_store_storeRecord [of "tripStore s" True]
      unfolding s1_def by (auto simp: addTrip_eq store_add_def split: sum.split)
    from Cons.prems(2) True have room1: "\<not> hasRoom (tripStore s1) (length ts)"
      by (auto simp: hasRoom_def s1(2))
    have step: "importTrips (t # ts) s = importTrips ts s1"
      by (simp add: add)
    from Cons.IH [OF wf1 room1] show ?thesis
      unfolding step by (simp add: s1 del: importTrips.simps)
  qed
qed

lemma importPhotos_records:
  assumes "wf_store (photoStore s)" and "hasRoom (photoStore s) (length ps)"
  shows "fst (importPhotos ps s) = Inr () \<and>
         tripStore (snd (importPhotos ps s)) = tripStore s \<and>
         wf_store (photoStore (snd (importPhotos ps s))) \<and>
         records (photoStore (snd (importPhotos ps s))) =
           records (photoStore s) @
           map (\<lambda>(i, p). (currentNumber (photoStore s) + int i,
                  p\<lparr>id' := Some (currentNumber (photoStore s) + int i)\<rparr>))
               (enumerate 0 ps)"
  using assms
proof (induction ps arbitrary: s)
  case Nil
  then show ?case by simp
next
  case (Cons p ps)
  let ?m = "currentNumber (photoStore s)"
  from Cons.prems(2) have room: "?m \<le> keyCeiling"
    by (simp add: hasRoom_def)
  have none: "id' (p\<lparr>id' := None\<rparr>) = None" by simp
  note gen = addPhoto_generated [OF Cons.prems(1) none room]
  define s1 where "s1 = snd (addPhoto (p\<lparr>id' := None\<rparr>) s)"
  have add: "addPhoto (p\<lparr>id' := None\<rparr>) s = (Inr ?m, s1)"
    unfolding s1_def by (simp add: gen)
  have s1: "tripStore s1 = tripStore s" "currentNumber (photoStore s1) = ?m + 1"
    "records (photoStore s1) = records (photoStore s) @ [(?m, p\<lparr>id' := Some ?m\<rparr>)]"
    unfolding s1_def by (simp_all add: gen)
  have wf1: "wf_store (photoStore s1)"
    using Cons.prems(1) wf_store_storeRecord [of "photoStore s" True]
    unfolding s1_def by (auto simp: addPhoto_def store_add_def split: sum.split)
  from Cons.prems(2) have room1: "hasRoom (photoStore s1) (length ps)"
    by (simp add: hasRoom_def s1(2))
  have step: "importPhotos (p # ps) s = importPhotos ps s1"
    by (simp add: add)
  have shift: "map (\<lambda>(i, p). (?m + 1 + int i, p\<lparr>id' := Some (?m + 1 + int i)\<rparr>))
                 (enumerate 0 ps) =
               map (\<lambda>(i, p). (?m + int i, p\<lparr>id' := Some (?m + int i)\<rparr>))
                 (enumerate (Suc 0) ps)"
    by (simp add: enumerate_Suc_eq [of 0] apfst_def map_prod_def case_prod_beta
        add.assoc add.commute)
  from Cons.IH [OF wf1 room1] show ?case
    unfolding step by (simp add: s1 shift del: importPhotos.simps)
qed

lemma importPhotos_no_room:
  assumes "wf_store (photoStore s)" and "\<not> hasRoom (photoStore s) (length ps)"
  shows "fst (importPhotos ps s) = Inl ConstraintError \<and>
         tripStore (snd (importPhotos ps s)) = tripStore s \<and>
         length (records (photoStore (snd (importPhotos ps s)))) <
           length (records (photoStore s)) + length ps"
  using assms
proof (induction ps arbitrary: s)
  case Nil
  then show ?case by (simp add: hasRoom_def)
next
  case (Cons p ps)
  let ?m = "currentNumber (photoStore s)"
  have none: "id' (p\<lparr>id' := None\<rparr>) = None" by simp
  show ?case
  proof (cases "?m \<le> keyCeiling")
    case False
    then have full: "keyCeiling < ?m" by simp
    show ?thesis
      by (simp add: addPhoto_exhausted [OF none full])
  next
    case True
    note gen = addPhoto_generated [OF Cons.prems(1) none True]
    define s1 where "s1 = snd (addPhoto (p\<lparr>id' := None\<rparr>) s)"
    have add: "addPhoto (p\<lparr>id' := None\<rparr>) s = (Inr ?m, s1)"
      unfolding s1_def by (simp add: gen)
    have s1: "tripStore s1 = tripStore s" "currentNumber (photoStore s1) = ?m + 1"
      "length (records (photoStore s1)) = Suc (length (records (photoStore s)))"
      unfolding s1_def by (simp_all add: gen)
    have wf1: "wf_store (photoStore s1)"
      using Cons.prems(1) wf_store_storeRecord [of "photoStore s" True]
      unfolding s1_def by (auto simp: addPhoto_def store_add_def split: sum.split)
    from Cons.prems(2) True have room1: "\<not> hasRoom (photoStore s1) (length ps)"
      by (auto simp: hasRoom_def s1(2))
    have step: "importPhotos (p # ps) s = importPhotos ps s1"
      by (simp add: add)
    from Cons.IH [OF wf1 room1] show ?thesis
      unfolding step by (simp add: s1 del: importPhotos.simps)
  qed
qed

text \<open>
  The outcome of \<open>importData\<close> on a document with \<open>trips\<close>: with room for the keys in
  both generators, success and the exact contents of the stores; without, a rejection
  with \<open>ConstraintError\<close> that leaves fewer records than the document has.
\<close>

lemma importData_records:
  assumes "document.trips doc = Some ts"
    and "hasRoom (tripStore s) (length ts)"
    and "hasRoom (photoStore s)
           (length (case document.photos doc of None \<Rightarrow> [] | Some ps \<Rightarrow> ps))"
  shows "fst (importData doc s) = Inr True \<and>
         records (tripStore (snd (importData doc s))) =
           map (\<lambda>(i, t). (currentNumber (tripStore s) + int i,
                  t\<lparr>id' := Some (currentNumber (tripStore s) + int i),
                    createdAt := Some (clock s (2 * i)),
                    updatedAt := Some (clock s (2 * i + 1))\<rparr>))
               (enumerate 0 ts) \<and>
         records (photoStore (snd (importData doc s))) =
           map (\<lambda>(i, p). (currentNumber (photoStore s) + int i,
                  p\<lparr>id' := Some (currentNumber (photoStore s) + int i)\<rparr>))
               (enumerate 0 (case document.photos doc of None \<Rightarrow> [] | Some ps \<Rightarrow> ps))"
proof -
  let ?c = "clearAllData s"
  have c: "records (tripStore ?c) = []" "records (photoStore ?c) = []"
    "currentNumber (tripStore ?c) = currentNumber (tripStore s)"
    "currentNumber (photoStore ?c) = currentNumber (photoStore s)"
    "clock ?c = clock s"
    by (simp_all add: clearAllData_def store_clear_def)
  have wt: "wf_store (tripStore ?c)" and wp: "wf_store (photoStore ?c)"
    using wf_clearAllData [of s] by (simp_all add: wf_world_def)
  from assms(2) have rt: "hasRoom (tripStore ?c) (length ts)"
    by (simp add: hasRoom_def c)
  define s2 where "s2 = snd (importTrips ts ?c)"
  note t = importTrips_records [OF wt rt, folded s2_def]
  from t have it: "importTrips ts ?c = (Inr (), s2)"
    unfolding s2_def by (metis prod.collapse)
  from t wp have wp2: "wf_store (photoStore s2)" by simp
  show ?thesis
  proof (cases "document.photos doc")
    case None
    have "importData doc s = (Inr True, s2)"
      by (simp add: importData_def assms(1) it None)
    with t show ?thesis by (simp add: None c)
  next
    case (Some ps)
    from assms(3) t have rp: "hasRoom (photoStore s2) (length ps)"
      by (simp add: hasRoom_def c Some)
    define s3 where "s3 = snd (importPhotos ps s2)"
    note p = importPhotos_records [OF wp2 rp, folded s3_def]
    from p have ip: "importPhotos ps s2 = (Inr (), s3)"
      unfolding s3_def by (metis prod.collapse)
    have "importData doc s = (Inr True, s3)"
      by (simp add: importData_def assms(1) it Some ip)
    with t p show ?thesis by (simp add: Some c)
  qed
qed

lemma importData_no_room:
  assumes "document.trips doc = Some ts"
    and "\<not> (hasRoom (tripStore s) (length ts) \<and>
            hasRoom (photoStore s)
              (length (case document.photos doc of None \<Rightarrow> [] | Some ps \<Rightarrow> ps)))"
  shows "fst (importData doc s) = Inl ConstraintError"
proof -
  let ?c = "clearAllData s"
  have c: "records (tripStore ?c) = []" "records (photoStore ?c) = []"
    "currentNumber (tripStore ?c) = currentNumber (tripStore s)"
    "currentNumber (photoStore ?c) = currentNumber (photoStore s)"
    by (simp_all add: clearAllData_def store_clear_def)
  have wt: "wf_store (tripStore ?c)" and wp: "wf_store (photoStore ?c)"
    using wf_clearAllData [of s] by (simp_all add: wf_world_def)
  show ?thesis
  proof (cases "hasRoom (tripStore s) (length ts)")
    case False
    then have "\<not> hasRoom (tripStore ?c) (length ts)"
      by (simp add: hasRoom_def c)
    note f = importTrips_no_room [OF wt this]
    define sf where "sf = snd (importTrips ts ?c)"
    from f have "importTrips ts ?c = (Inl ConstraintError, sf)"
      unfolding sf_def by (metis prod.collapse)
    then show ?thesis
      by (simp add: importData_def assms(1))
  next
    case True
    then have rt: "hasRoom (tripStore ?c) (length ts)"
      by (simp add: hasRoom_def c)
    define s2 where "s2 = snd (importTrips ts ?c)"
    note t = importTrips_records [OF wt rt, folded s2_def]
    from t have it: "importTrips ts ?c = (Inr (), s2)"
      unfolding s2_def by (metis prod.collapse)
    from t wp have wp2: "wf_store (photoStore s2)" by simp
    from True assms(2) obtain ps where ps: "document.photos doc = Some ps"
      and "\<not> hasRoom (photoStore s) (length ps)"
      by (cases "document.photos doc") (auto simp: hasRoom_def)
    with t have "\<not> hasRoom (photoStore s2) (length ps)"
      by (simp add: hasRoom_def c)
    note f = importPhotos_no_room [OF wp2 this]
    define sf where "sf = snd (importPhotos ps s2)"
    from f have "importPhotos ps s2 = (Inl ConstraintError, sf)"
      unfolding sf_def by (metis prod.collapse)
    then show ?thesis
      by (simp add: importData_def assms(1) it ps)
  qed
qed

lemma importData_invalid:
  "document.trips doc = None \<Longrightarrow> importData doc s = (Inl InvalidDataFormat, s)"
  by (simp add: importData_def)

text \<open>
  Claim C7.  Take a document that has \<open>trips\<close> (without them \<open>importData\<close> is rejected
  as an invalid data format and nothing is touched).  \<open>importData\<close> succeeds exactly when
  the two key generators can still issue a key for every trip and every photo of the
  document.  It first clears both stores.  On success the trip store then holds exactly
  the trips of the document, in their order, each with its \<open>id\<close> replaced by a fresh one
  from the key generator (which the clearing did not reset) and with the time stamps
  \<open>addTrip\<close> sets; the photo store holds exactly the photos of the document, in their
  order, each with its \<open>id\<close> replaced by a fresh one and nothing else changed: every
  \<open>tripId\<close> is the one of the document, not the new id of the trip.
\<close>

theorem importData_replaces:
  assumes "document.trips doc = Some ts"
  shows "(fst (importData doc s) = Inr True \<longleftrightarrow>
            hasRoom (tripStore s) (length ts) \<and>
            hasRoom (photoStore s)
              (length (case document.photos doc of None \<Rightarrow> [] | Some ps \<Rightarrow> ps))) \<and>
         getAllTrips (clearAllData s) = [] \<and> getAllPhotos (clearAllData s) = [] \<and>
         (fst (importData doc s) = Inr True \<longrightarrow>
            store_getAll (tripStore (snd (importData doc s))) =
              map (\<lambda>(i, t). t\<lparr>id' := Some (currentNumber (tripStore s) + int i),
                               createdAt := Some (clock s (2 * i)),
                               updatedAt := Some (clock s (2 * i + 1))\<rparr>)
                  (enumerate 0 ts) \<and>
            getAllPhotos (snd (importData doc s)) =
              map (\<lambda>(i, p). p\<lparr>id' := Some (currentNumber (photoStore s) + int i)\<rparr>)
                  (enumerate 0 (case document.photos doc of None \<Rightarrow> [] | Some ps \<Rightarrow> ps)) \<and>
            map tripId (getAllPhotos (snd (importData doc s))) =
              map tripId (case document.photos doc of None \<Rightarrow> [] | Some ps \<Rightarrow> ps))"
proof -
  let ?room = "hasRoom (tripStore s) (length ts) \<and>
            hasRoom (photoStore s)
              (length (case document.photos doc of None \<Rightarrow> [] | Some ps \<Rightarrow> ps))"
  have iff: "fst (importData doc s) = Inr True \<longleftrightarrow> ?room"
  proof
    assume ok: "fst (importData doc s) = Inr True"
    show ?room
    proof (rule ccontr)
      assume "\<not> ?room"
      with importData_no_room [OF assms, of s] ok show False by simp
    qed
  next
    assume ?room
    then show "fst (importData doc s) = Inr True"
      using importData_records [OF assms, of s] by blast
  qed
  have cleared: "getAllTrips (clearAllData s) = []" "getAllPhotos (clearAllData s) = []"
    by (simp_all add: clearAllData_def store_clear_def getAllTrips_def getAllPhotos_def
        store_getAll_def sortArray_def)
  have result: "store_getAll (tripStore (snd (importData doc s))) =
              map (\<lambda>(i, t). t\<lparr>id' := Some (currentNumber (tripStore s) + int i),
                               createdAt := Some (clock s (2 * i)),
                               updatedAt := Some (clock s (2 * i + 1))\<rparr>)
                  (enumerate 0 ts) \<and>
            getAllPhotos (snd (importData doc s)) =
              map (\<lambda>(i, p). p\<lparr>id' := Some (currentNumber (photoStore s) + int i)\<rparr>)
                  (enumerate 0 (case document.photos doc of None \<Rightarrow> [] | Some ps \<Rightarrow> ps)) \<and>
            map tripId (getAllPhotos (snd (importData doc s))) =
              map tripId (case document.photos doc of None \<Rightarrow> [] | Some ps \<Rightarrow> ps)"
    if ok: "fst (importData doc s) = Inr True"
  proof -
    from ok iff have room: "hasRoom (tripStore s) (length ts)"
      "hasRoom (photoStore s)
         (length (case document.photos doc of None \<Rightarrow> [] | Some ps \<Rightarrow> ps))"
      by simp_all
    note r = importData_records [OF assms room]
    have trips: "store_getAll (tripStore (snd (importData doc s))) =
           map (\<lambda>(i, t). t\<lparr>id' := Some (currentNumber (tripStore s) + int i),
                            createdAt := Some (clock s (2 * i)),
                            updatedAt := Some (clock s (2 * i + 1))\<rparr>)
               (enumerate 0 ts)"
      using r by (simp add: store_getAll_def case_prod_beta)
    have photos: "getAllPhotos (snd (importData doc s)) =
           map (\<lambda>(i, p). p\<lparr>id' := Some (currentNumber (photoStore s) + int i)\<rparr>)
               (enumerate 0 (case document.photos doc of None \<Rightarrow> [] | Some ps \<Rightarrow> ps))"
      using r by (simp add: getAllPhotos_def store_getAll_def case_prod_beta)
    have "map (\<lambda>x. tripId (snd x\<lparr>id' := Some (k + int (fst x))\<rparr>)) (enumerate n ps) =
          map tripId ps"
      for ps :: "photo list" and n k
      by (induction ps arbitrary: n) simp_all
    then have kept: "map tripId (getAllPhotos (snd (importData doc s))) =
           map tripId (case document.photos doc of None \<Rightarrow> [] | Some ps \<Rightarrow> ps)"
      by (simp add: photos case_prod_beta comp_def)
    show ?thesis
      by (intro conjI) (rule trips photos kept)+
  qed
  show ?thesis
    by (intro conjI impI) (rule iff cleared result [THEN conjunct1]
        result [THEN conjunct2, THEN conjunct1] result [THEN conjunct2, THEN conjunct2],
        assumption?)+
qed

theorem importData_replaces_witness:
  "document.trips exampleDoc =
     Some [paris\<lparr>id' := Some 10\<rparr>, madrid\<lparr>id' := Some 20\<rparr>] \<and>
   fst (importData exampleDoc exampleDB) = Inr True \<and>
   store_getAll (tripStore (snd (importData exampleDoc exampleDB))) =
     [paris\<lparr>id' := Some 3, createdAt := Some 1004, updatedAt := Some 1005\<rparr>,
      madrid\<lparr>id' := Some 4, createdAt := Some 1006, updatedAt := Some 1007\<rparr>] \<and>
   getAllPhotos (snd (importData exampleDoc exampleDB)) =
     [emptyPhoto\<lparr>id' := Some 4, tripId := Some 20\<rparr>,
      emptyPhoto\<lparr>id' := Some 5, tripId := Some 10\<rparr>] \<and>
   getPhotosByTripId 3 (snd (importData exampleDoc exampleDB)) = []"
proof -
  have d: "document.trips exampleDoc =
     Some [paris\<lparr>id' := Some 10\<rparr>, madrid\<lparr>id' := Some 20\<rparr>]"
    "document.photos exampleDoc =
     Some [emptyPhoto\<lparr>id' := Some 7, tripId := Some 20\<rparr>,
           emptyPhoto\<lparr>id' := Some 8, tripId := Some 10\<rparr>]"
    by (simp_all add: exampleDoc_def)
  have ex: "currentNumber (tripStore exampleDB) = 3" "currentNumber (photoStore exampleDB) = 4"
    "clock exampleDB = (\<lambda>n. 1004 + int n)"
    by (simp_all add: exampleDB_eq)
  have room: "hasRoom (tripStore exampleDB) (Suc (Suc 0))"
    "hasRoom (photoStore exampleDB) (Suc (Suc 0))"
    by (simp_all add: hasRoom_def ex keyCeiling_def)
  note r = importData_replaces [OF d(1), of exampleDB]
  from r room have ok: "fst (importData exampleDoc exampleDB) = Inr True"
    by (simp add: d(2))
  from r ok have "store_getAll (tripStore (snd (importData exampleDoc exampleDB))) =
           map (\<lambda>(i, t). t\<lparr>id' := Some (currentNumber (tripStore exampleDB) + int i),
                            createdAt := Some (clock exampleDB (2 * i)),
                            updatedAt := Some (clock exampleDB (2 * i + 1))\<rparr>)
               (enumerate 0 [paris\<lparr>id' := Some 10\<rparr>, madrid\<lparr>id' := Some 20\<rparr>])"
    by (intro r [THEN conjunct2, THEN conjunct2, THEN conjunct2, THEN mp, THEN conjunct1])
  then have trips: "store_getAll (tripStore (snd (importData exampleDoc exampleDB))) =
     [paris\<lparr>id' := Some 3, createdAt := Some 1004, updatedAt := Some 1005\<rparr>,
      madrid\<lparr>id' := Some 4, createdAt := Some 1006, updatedAt := Some 1007\<rparr>]"
    by (simp add: ex)
  from r ok have "getAllPhotos (snd (importData exampleDoc exampleDB)) =
           map (\<lambda>(i, p). p\<lparr>id' := Some (currentNumber (photoStore exampleDB) + int i)\<rparr>)
               (enumerate 0 (case document.photos exampleDoc of None \<Rightarrow> [] | Some ps \<Rightarrow> ps))"
    by (intro r [THEN conjunct2, THEN conjunct2, THEN conjunct2, THEN mp, THEN conjunct2,
          THEN conjunct1])
  then have photos: "getAllPhotos (snd (importData exampleDoc exampleDB)) =
     [emptyPhoto\<lparr>id' := Some 4, tripId := Some 20\<rparr>,
      emptyPhoto\<lparr>id' := Some 5, tripId := Some 10\<rparr>]"
    by (simp add: ex d(2))
  have none: "getPhotosByTripId 3 (snd (importData exampleDoc exampleDB)) = []"
    using photos unfolding getPhotosByTripId_def getAllPhotos_def
    by (simp add: parseInt_def emptyPhoto_def)
  show ?thesis
    by (intro conjI) (rule d(1) ok trips photos none)+
qed

section \<open>Export followed by import\<close>

lemma fullDB_eq:
  "fullDB =
     \<lparr>tripStore =
        \<lparr>records =
           [(9007199254740991,
             paris\<lparr>id' := Some 9007199254740991, createdAt := Some 1000,
                    updatedAt := Some 1001\<rparr>),
            (9007199254740992,
             madrid\<lparr>id' := Some 9007199254740992, createdAt := Some 1002,
                     updatedAt := Some 1003\<rparr>)],
         currentNumber = 9007199254740993\<rparr>,
      photoStore = \<lparr>records = [], currentNumber = 1\<rparr>,
      clock = \<lambda>n. 1004 + int n\<rparr>"
  by (simp add: fullDB_def addTrip_eq store_add_def storeRecord_def initDB_def
      exampleClock_def paris_def madrid_def emptyTrip_def keyCeiling_def)

lemma wf_fullDB: "wf_world fullDB"
  unfolding fullDB_def
  by (intro wf_addTrip wf_initDB)

text \<open>
  Claim C8, as stated, fails.  \<open>fullDB\<close> is reached by two calls of \<open>addTrip\<close> on the empty
  database and holds two trips, with the keys \<open>2 ^ 53 - 1\<close> and \<open>2 ^ 53\<close>; its key
  generator is used up.  Importing its own export clears the stores and then fails at the
  first \<open>addTrip\<close>, which can get no key: the import is rejected with a
  \<open>ConstraintError\<close> and no trip is left.
\<close>

theorem export_import_counterexample:
  "wf_world fullDB \<and>
   map title (getAllTrips fullDB) = [Some ''Paris'', Some ''Madrid''] \<and>
   fst (importData (fst (exportData fullDB)) (snd (exportData fullDB))) =
     Inl ConstraintError \<and>
   getAllTrips (snd (importData (fst (exportData fullDB)) (snd (exportData fullDB)))) = []"
proof -
  have ts: "getAllTrips fullDB =
     [paris\<lparr>id' := Some 9007199254740991, createdAt := Some 1000, updatedAt := Some 1001\<rparr>,
      madrid\<lparr>id' := Some 9007199254740992, createdAt := Some 1002, updatedAt := Some 1003\<rparr>]"
    by (simp add: fullDB_eq getAllTrips_def store_getAll_def sortArray_def sortCompare_def
        compareTrips_def paris_def madrid_def emptyTrip_def)
  have titles: "map title (getAllTrips fullDB) = [Some ''Paris'', Some ''Madrid'']"
    unfolding ts by (simp add: paris_def madrid_def emptyTrip_def)
  have doc: "document.trips (fst (exportData fullDB)) = Some (getAllTrips fullDB)"
    by (simp add: exportData_def newDate_def)
  have s1: "tripStore (snd (exportData fullDB)) = tripStore fullDB"
    by (simp add: exportData_def newDate_def)
  have "currentNumber (tripStore fullDB) = 9007199254740993"
    by (simp add: fullDB_eq)
  then have full:
    "keyCeiling < currentNumber (tripStore (clearAllData (snd (exportData fullDB))))"
    by (simp add: clearAllData_def store_clear_def s1 keyCeiling_def)
  have none: "id' (t\<lparr>id' := None\<rparr>) = None" for t :: trip by simp
  have "importTrips (getAllTrips fullDB) (clearAllData (snd (exportData fullDB))) =
          (Inl ConstraintError,
           (clearAllData (snd (exportData fullDB)))
             \<lparr>clock := \<lambda>n. clock (clearAllData (snd (exportData fullDB))) (Suc (Suc n))\<rparr>)"
    unfolding ts by (simp add: addTrip_exhausted [OF none full])
  then have imp: "importData (fst (exportData fullDB)) (snd (exportData fullDB)) =
          (Inl ConstraintError,
           (clearAllData (snd (exportData fullDB)))
             \<lparr>clock := \<lambda>n. clock (clearAllData (snd (exportData fullDB))) (Suc (Suc n))\<rparr>)"
    by (simp add: importData_def doc)
  have failed: "fst (importData (fst (exportData fullDB)) (snd (exportData fullDB))) =
     Inl ConstraintError"
    by (simp add: imp)
  have empty: "getAllTrips (snd (importData (fst (exportData fullDB))
                 (snd (exportData fullDB)))) = []"
    by (simp add: imp getAllTrips_def store_getAll_def sortArray_def clearAllData_def
        store_clear_def)
  show ?thesis
    by (intro conjI) (rule wf_fullDB titles failed empty)+
qed

text \<open>
  Claim C8, amended.  In every state of the database in which each key generator can
  still issue as many keys as its store holds records (the store is empty, or the
  current number plus the number of records is at most \<open>2 ^ 53 + 1\<close>), importing what
  \<open>exportData\<close> has just returned succeeds and leaves as many trips and as many photos
  as there were.  In every other state that import is rejected with a \<open>ConstraintError\<close>.
\<close>

theorem export_import_roundtrip:
  "(hasRoom (tripStore s) (length (getAllTrips s)) \<and>
    hasRoom (photoStore s) (length (getAllPhotos s)) \<longrightarrow>
      fst (importData (fst (exportData s)) (snd (exportData s))) = Inr True \<and>
      length (getAllTrips (snd (importData (fst (exportData s)) (snd (exportData s))))) =
        length (getAllTrips s) \<and>
      length (getAllPhotos (snd (importData (fst (exportData s)) (snd (exportData s))))) =
        length (getAllPhotos s)) \<and>
   (\<not> (hasRoom (tripStore s) (length (getAllTrips s)) \<and>
       hasRoom (photoStore s) (length (getAllPhotos s))) \<longrightarrow>
      fst (importData (fst (exportData s)) (snd (exportData s))) = Inl ConstraintError)"
proof -
  let ?doc = "fst (exportData s)" and ?s1 = "snd (exportData s)"
  have d: "document.trips ?doc = Some (getAllTrips s)"
    "document.photos ?doc = Some (getAllPhotos s)"
    by (simp_all add: exportData_def newDate_def)
  have s1: "tripStore ?s1 = tripStore s" "photoStore ?s1 = photoStore s"
    by (simp_all add: exportData_def newDate_def)
  have good: "fst (importData ?doc ?s1) = Inr True \<and>
      length (getAllTrips (snd (importData ?doc ?s1))) = length (getAllTrips s) \<and>
      length (getAllPhotos (snd (importData ?doc ?s1))) = length (getAllPhotos s)"
    if room: "hasRoom (tripStore s) (length (getAllTrips s)) \<and>
              hasRoom (photoStore s) (length (getAllPhotos s))"
  proof -
    from room have rt: "hasRoom (tripStore ?s1) (length (getAllTrips s))"
      and rp: "hasRoom (photoStore ?s1)
                 (length (case document.photos ?doc of None \<Rightarrow> [] | Some ps \<Rightarrow> ps))"
      by (simp_all add: s1 d(2))
    note r = importData_records [OF d(1) rt rp]
    from r have ok: "fst (importData ?doc ?s1) = Inr True" by (rule conjunct1)
    from r have "length (records (tripStore (snd (importData ?doc ?s1)))) =
                 length (getAllTrips s)"
      by simp
    then have trips: "length (getAllTrips (snd (importData ?doc ?s1))) = length (getAllTrips s)"
      by (simp add: getAllTrips_def length_sortArray store_getAll_def)
    from r have photos:
      "length (getAllPhotos (snd (importData ?doc ?s1))) = length (getAllPhotos s)"
      by (simp add: d(2) getAllPhotos_def store_getAll_def)
    show ?thesis
      by (intro conjI) (rule ok trips photos)+
  qed
  have bad: "fst (importData ?doc ?s1) = Inl ConstraintError"
    if "\<not> (hasRoom (tripStore s) (length (getAllTrips s)) \<and>
            hasRoom (photoStore s) (length (getAllPhotos s)))"
  proof -
    from that have "\<not> (hasRoom (tripStore ?s1) (length (getAllTrips s)) \<and>
            hasRoom (photoStore ?s1)
              (length (case document.photos ?doc of None \<Rightarrow> [] | Some ps \<Rightarrow> ps)))"
      by (simp add: s1 d(2))
    then show ?thesis by (rule importData_no_room [OF d(1)])
  qed
  from good bad show ?thesis by blast
qed

theorem export_import_roundtrip_witness:
  "hasRoom (tripStore exampleDB) (length (getAllTrips exampleDB)) \<and>
   hasRoom (photoStore exampleDB) (length (getAllPhotos exampleDB)) \<and>
   length (getAllTrips exampleDB) = 2 \<and> length (getAllPhotos exampleDB) = 3 \<and>
   fst (importData (fst (exportData exampleDB)) (snd (exportData exampleDB))) = Inr True \<and>
   length (getAllTrips (snd (importData (fst (exportData exampleDB))
                                        (snd (exportData exampleDB))))) = 2 \<and>
   length (getAllPhotos (snd (importData (fst (exportData exampleDB))
                                         (snd (exportData exampleDB))))) = 3"
proof -
  have ex: "length (getAllTrips exampleDB) = 2" "length (getAllPhotos exampleDB) = 3"
    by (simp_all add: exampleDB_eq getAllTrips_def length_sortArray getAllPhotos_def
        store_getAll_def)
  have room: "hasRoom (tripStore exampleDB) (length (getAllTrips exampleDB))"
    "hasRoom (photoStore exampleDB) (length (getAllPhotos exampleDB))"
    unfolding ex by (simp_all add: hasRoom_def exampleDB_eq keyCeiling_def)
  from export_import_roundtrip [of exampleDB] room have
    "fst (importData (fst (exportData exampleDB)) (snd (exportData exampleDB))) = Inr True \<and>
      length (getAllTrips (snd (importData (fst (exportData exampleDB))
         (snd (exportData exampleDB))))) = length (getAllTrips exampleDB) \<and>
      length (getAllPhotos (snd (importData (fst (exportData exampleDB))
         (snd (exportData exampleDB))))) = length (getAllPhotos exampleDB)"
    by blast
  with room ex show ?thesis by simp
qed

section \<open>The order of the trips\<close>







end
